theory Spec2Isabelle
  imports Main
begin

section \<open>The router of \<^verbatim>\<open>src/src/Router.ts\<close>\<close>

text \<open>
  The router resolves a path against a tree of routes. Every route owns a compiled
  \<^verbatim>\<open>URLPattern\<close>, stored in a table keyed by the identity of the route object. Resolution
  scans a list of siblings in order, runs the first matching route's action and lets the
  action continue into the children through \<^verbatim>\<open>next()\<close>.

  \<^verbatim>\<open>URLPattern\<close> is the platform's URL Pattern API and no code of the repository, so
  the functions below take its constructor (\<open>new\<close>) and its \<^verbatim>\<open>exec\<close> method as
  arguments. JavaScript strings are modelled as \<^typ>\<open>string\<close>, and a \<^verbatim>\<open>URL\<close> object
  by the string it converts to.
\<close>

subsection \<open>Values, failures and promises\<close>

text \<open>A value of \<^verbatim>\<open>T | null | undefined\<close>.\<close>

datatype 'r "value" = Undefined | Null | Value 'r

text \<open>
  What a \<^verbatim>\<open>throw\<close> can carry: a \<^verbatim>\<open>RouterError\<close> with its status and message, the
  \<^verbatim>\<open>TypeError\<close> of the platform, or any other value thrown by the code of an action.
\<close>

datatype 'e thrown = RouterError (status: nat) (message: string) | TypeError | Thrown 'e

text \<open>A promise is identified with the way it settles, if it ever does.\<close>

datatype ('r, 'e) promise = Fulfilled "'r value" | Rejected "'e thrown" | Pending

text \<open>
  How a call of type \<^verbatim>\<open>RouteResult\<close> completes: it returns a plain value, returns a
  promise, or throws.
\<close>

datatype ('r, 'e) completion = Plain "'r value" | Promise "('r, 'e) promise" | Throws "'e thrown"

text \<open>The promise of an \<^verbatim>\<open>async\<close> function whose body completes with \<open>c\<close>.\<close>

fun async :: "('r, 'e) completion \<Rightarrow> ('r, 'e) promise" where
  "async (Plain v) = Fulfilled v"
| "async (Promise p) = p"
| "async (Throws e) = Rejected e"

text \<open>The left operand of \<^verbatim>\<open>??\<close> is replaced when it is \<^verbatim>\<open>null\<close> or \<^verbatim>\<open>undefined\<close>.\<close>

fun nullish :: "('r, 'e) completion \<Rightarrow> bool" where
  "nullish (Plain Undefined) = True"
| "nullish (Plain Null) = True"
| "nullish _ = False"

subsection \<open>Routes\<close>

text \<open>
  A route object is identified by its position in the tree: the indices that lead from
  the root list of siblings to it. This is the identity the \<^verbatim>\<open>WeakMap\<close> of patterns
  uses, provided no route object occurs twice in the tree.
\<close>

type_synonym node = "nat list"

type_synonym RouteParams = "(string \<times> string option) list"

text \<open>
  The context handed to an action. The fields \<^verbatim>\<open>route\<close> and \<^verbatim>\<open>parent\<close> hold the
  identities of the route objects; \<^verbatim>\<open>next\<close> is modelled by \<open>CallNext\<close> below, and the
  back-reference \<^verbatim>\<open>router\<close> is left out.
\<close>

record 'c RouteContext =
  "context" :: 'c
  route :: node
  parent :: "node option"
  ctx_path :: string
  params :: RouteParams

text \<open>
  The code of an action, as far as the resolver is concerned: it either completes, or it
  calls \<^verbatim>\<open>next()\<close>, receives the promise of that call and goes on.
\<close>

datatype ('r, 'e) behaviour =
  Return "('r, 'e) completion"
| CallNext "('r, 'e) promise \<Rightarrow> ('r, 'e) behaviour"

datatype ('r, 'c, 'e) Route =
  Route (children: "('r, 'c, 'e) Route list option")
        (path: string)
        (action: "('c RouteContext \<Rightarrow> ('r, 'e) behaviour) option")

text \<open>
  \<open>children = None\<close> stands for an absent or \<^verbatim>\<open>null\<close> property, \<open>Some []\<close> for an empty
  array.
\<close>

type_synonym ('r, 'c, 'e) RouterErrorHandler =
  "string \<Rightarrow> 'e thrown \<Rightarrow> 'c \<Rightarrow> ('r, 'e) completion"

record ('r, 'c, 'e) RouterOptions =
  baseURL :: string
  errorHandler :: "('r, 'c, 'e) RouterErrorHandler option"

subsection \<open>The result of \<^verbatim>\<open>URLPattern.exec\<close>\<close>

text \<open>
  The components of a match the resolver can read. It reads \<^verbatim>\<open>search.groups\<close> only;
  \<^verbatim>\<open>pathname\<close> is kept to compare with it.
\<close>

record URLPatternComponentResult =
  input :: string
  groups :: RouteParams

record URLPatternResult =
  pathname :: URLPatternComponentResult
  search :: URLPatternComponentResult

subsection \<open>What can be observed of a resolution\<close>

datatype ('c, 'e) event =
  Tested node
| Invoked node
| Handled string "'e thrown" 'c

text \<open>
  \<open>Tested n\<close>: the pattern of route \<open>n\<close> was run against the path;
  \<open>Invoked n\<close>: the action of route \<open>n\<close> was called;
  \<open>Handled p e c\<close>: the error handler was called with these arguments.
\<close>

subsection \<open>\<^verbatim>\<open>stripJoiners\<close>\<close>

text \<open>
  The regular expression \<^verbatim>\<open>/^\/*(.*?)\/*$/u\<close> drops the slashes at both ends. Its dot
  matches no line terminator, so on a string that holds one \<^verbatim>\<open>exec\<close> yields
  \<^verbatim>\<open>null\<close> and the function returns \<^verbatim>\<open>undefined\<close>, here \<open>None\<close>.
\<close>

definition line_terminator :: "char \<Rightarrow> bool" where
  "line_terminator c = (c = CHR 0x0A \<or> c = CHR 0x0D)"

definition stripJoiners :: "string \<Rightarrow> string option" where
  "stripJoiners p =
     (if list_ex line_terminator p then None
      else Some (rev (dropWhile (\<lambda>c. c = CHR ''/'') (rev (dropWhile (\<lambda>c. c = CHR ''/'') p)))))"

text \<open>\<^verbatim>\<open>parents.join('/')\<close>: an \<^verbatim>\<open>undefined\<close> element is joined as the empty string.\<close>

fun join :: "string option list \<Rightarrow> string" where
  "join [] = []"
| "join [p] = (case p of None \<Rightarrow> [] | Some s \<Rightarrow> s)"
| "join (p # ps) = (case p of None \<Rightarrow> [] | Some s \<Rightarrow> s) @ CHR ''/'' # join ps"

subsection \<open>\<^verbatim>\<open>#patternize\<close>\<close>

definition child_node :: "node option \<Rightarrow> nat \<Rightarrow> node" where
  "child_node par i = (case par of None \<Rightarrow> [i] | Some n \<Rightarrow> n @ [i])"

text \<open>
  The loop over \<open>routes\<close>. \<open>par\<close> and \<open>i\<close> say where the current route sits in the
  tree. \<open>new\<close> is the constructor of \<^verbatim>\<open>URLPattern\<close>; it yields \<open>None\<close> where the
  constructor throws its \<^verbatim>\<open>TypeError\<close>. The function never reads the table, so it
  returns the calls of \<^verbatim>\<open>this.#patterns.set\<close> it makes, in order, and \<open>set_all\<close>
  performs them.
\<close>

function patternize ::
  "(string option \<Rightarrow> string \<Rightarrow> 'p option) \<Rightarrow> node option \<Rightarrow> nat \<Rightarrow>
   ('r, 'c, 'e) Route list \<Rightarrow> string option list \<Rightarrow> 'e thrown + (node \<times> 'p) list" where
  "patternize new par i [] parents = Inr []"
| "patternize new par i (r # rest) parents =
     (let base = join parents;
          p = stripJoiners (path r)
      in case new p base of
           None \<Rightarrow> Inl TypeError
         | Some pat \<Rightarrow>
             (case (case children r of
                      None \<Rightarrow> Inr []
                    | Some cs \<Rightarrow>
                        if 0 < length cs
                        then patternize new (Some (child_node par i)) 0 cs (parents @ [p])
                        else Inr []) of
                Inl e \<Rightarrow> Inl e
              | Inr below \<Rightarrow>
                  (case patternize new par (Suc i) rest parents of
                     Inl e \<Rightarrow> Inl e
                   | Inr after \<Rightarrow> Inr ((child_node par i, pat) # below @ after))))"
  by pat_completeness auto
termination
proof (relation "measure (\<lambda>(new, par, i, rs, parents). size_list size rs)")
  fix r :: "('r, 'c, 'e) Route" and cs rest :: "('r, 'c, 'e) Route list"
  assume "children r = Some cs"
  then show "((new, Some (child_node par i), 0, cs, parents @ [p]), new, par, i, r # rest, parents)
      \<in> measure (\<lambda>(new, par, i, rs, parents). size_list size rs)"
    for new :: "string option \<Rightarrow> string \<Rightarrow> 'p option" and par i
      and parents :: "string option list" and p :: "string option"
    by (cases r) simp
qed simp_all

definition set_all :: "(node \<times> 'p) list \<Rightarrow> (node \<rightharpoonup> 'p) \<Rightarrow> (node \<rightharpoonup> 'p)" where
  "set_all ws pats = foldl (\<lambda>m (n, pat). m(n \<mapsto> pat)) pats ws"

subsection \<open>The router and its constructor\<close>

record ('r, 'c, 'e, 'p) Router =
  routes :: "('r, 'c, 'e) Route list"
  patterns :: "node \<rightharpoonup> 'p"
  options :: "('r, 'c, 'e) RouterOptions option"

text \<open>
  The constructor takes an array of routes (\<open>Inl\<close>) or a single route (\<open>Inr\<close>).
  \<open>origin\<close> is the ambient \<^verbatim>\<open>location.origin\<close>, used when no options are given. It
  fails when a constructor of \<^verbatim>\<open>URLPattern\<close> throws.
\<close>

definition constructor ::
  "(string option \<Rightarrow> string \<Rightarrow> 'p option) \<Rightarrow> string \<Rightarrow>
   ('r, 'c, 'e) Route list + ('r, 'c, 'e) Route \<Rightarrow> ('r, 'c, 'e) RouterOptions option \<Rightarrow>
   'e thrown + ('r, 'c, 'e, 'p) Router" where
  "constructor new origin rts opts =
     (let rs = (case rts of Inl arr \<Rightarrow> arr | Inr r \<Rightarrow> [r]);
          b = (case opts of None \<Rightarrow> origin | Some opt \<Rightarrow> baseURL opt)
      in case patternize new None 0 rs [stripJoiners b] of
           Inl e \<Rightarrow> Inl e
         | Inr ws \<Rightarrow> Inr \<lparr>routes = rs, patterns = set_all ws Map.empty, options = opts\<rparr>)"

subsection \<open>\<^verbatim>\<open>#resolve\<close>\<close>

text \<open>
  An action runs with the promise \<^verbatim>\<open>next()\<close> would return and the events a call of
  \<^verbatim>\<open>next()\<close> causes. Every call of \<^verbatim>\<open>next()\<close> resolves the children anew, with the
  same outcome.
\<close>

primrec run ::
  "('r, 'e) promise \<times> ('c, 'e) event list \<Rightarrow> ('r, 'e) behaviour \<Rightarrow>
   ('r, 'e) completion \<times> ('c, 'e) event list" where
  "run nx (Return c) = (c, [])"
| "run nx (CallNext k) = (case run nx (k (fst nx)) of (c, evs) \<Rightarrow> (c, snd nx @ evs))"

text \<open>
  The body of \<^verbatim>\<open>#resolve\<close>: how it completes, and the events in order. \<open>i\<close> is the index
  of the first route of \<open>rs\<close> among its siblings. Calling \<^verbatim>\<open>exec\<close> on a pattern that
  is missing from the table throws a \<^verbatim>\<open>TypeError\<close>.
\<close>

function resolve_private ::
  "('p \<Rightarrow> string \<Rightarrow> URLPatternResult option) \<Rightarrow> (node \<rightharpoonup> 'p) \<Rightarrow> string \<Rightarrow> nat \<Rightarrow>
   ('r, 'c, 'e) Route list \<Rightarrow> node option \<Rightarrow> 'c \<Rightarrow>
   ('r, 'e) completion \<times> ('c, 'e) event list" where
  "resolve_private exec pats pth i [] par ctx =
     (Throws (RouterError 404 (''Page '' @ pth @ '' is not found'')), [])"
| "resolve_private exec pats pth i (r # rest) par ctx =
     (case pats (child_node par i) of
        None \<Rightarrow> (Throws TypeError, [])
      | Some pat \<Rightarrow>
          (case exec pat pth of
             None \<Rightarrow>
               (case resolve_private exec pats pth (Suc i) rest par ctx of
                  (c, evs) \<Rightarrow> (c, Tested (child_node par i) # evs))
           | Some result \<Rightarrow>
               (let nx = (case children r of
                            None \<Rightarrow> (Fulfilled Undefined, [])
                          | Some cs \<Rightarrow>
                              (case resolve_private exec pats pth 0 cs (Some (child_node par i)) ctx of
                                 (c, evs) \<Rightarrow> (async c, evs)))
                in case action r of
                     None \<Rightarrow> (Promise (fst nx), Tested (child_node par i) # snd nx)
                   | Some a \<Rightarrow>
                       (case run nx (a \<lparr>context = ctx, route = child_node par i, parent = par,
                                         ctx_path = pth, params = groups (search result)\<rparr>) of
                          (c, evs) \<Rightarrow>
                            if nullish c
                            then (Promise (fst nx),
                                  Tested (child_node par i) # Invoked (child_node par i) # evs @ snd nx)
                            else (c, Tested (child_node par i) # Invoked (child_node par i) # evs)))))"
  by pat_completeness auto
termination
proof (relation "measure (\<lambda>(exec, pats, pth, i, rs, par, ctx). size_list size rs)")
  fix r :: "('r, 'c, 'e) Route" and cs rest :: "('r, 'c, 'e) Route list"
  assume "children r = Some cs"
  then show "((exec, pats, pth, 0, cs, Some (child_node par i), ctx), exec, pats, pth, i, r # rest, par, ctx)
      \<in> measure (\<lambda>(exec, pats, pth, i, rs, par, ctx). size_list size rs)"
    for exec :: "'p \<Rightarrow> string \<Rightarrow> URLPatternResult option" and pats :: "node \<rightharpoonup> 'p"
      and pth :: string and par i and ctx :: 'c
    by (cases r) simp
qed simp_all

text \<open>The continuation \<^verbatim>\<open>next\<close> built for a matched route \<open>r\<close> at node \<open>n\<close>.\<close>

definition "next" ::
  "('p \<Rightarrow> string \<Rightarrow> URLPatternResult option) \<Rightarrow> (node \<rightharpoonup> 'p) \<Rightarrow> string \<Rightarrow>
   ('r, 'c, 'e) Route \<Rightarrow> node \<Rightarrow> 'c \<Rightarrow> ('r, 'e) promise \<times> ('c, 'e) event list" where
  "next exec pats pth r n ctx =
     (case children r of
        None \<Rightarrow> (Fulfilled Undefined, [])
      | Some cs \<Rightarrow>
          (case resolve_private exec pats pth 0 cs (Some n) ctx of (c, evs) \<Rightarrow> (async c, evs)))"

subsection \<open>\<^verbatim>\<open>resolve\<close>\<close>

definition handler ::
  "('r, 'c, 'e, 'p) Router \<Rightarrow> ('r, 'c, 'e) RouterErrorHandler option" where
  "handler router = (case options router of None \<Rightarrow> None | Some opt \<Rightarrow> errorHandler opt)"

text \<open>
  The promise \<^verbatim>\<open>resolve\<close> returns, and the events in order. The \<^verbatim>\<open>catch\<close> clause
  sees whatever the awaited promise of \<^verbatim>\<open>#resolve\<close> was rejected with.
\<close>

definition resolve ::
  "('p \<Rightarrow> string \<Rightarrow> URLPatternResult option) \<Rightarrow> ('r, 'c, 'e, 'p) Router \<Rightarrow> string \<Rightarrow> 'c \<Rightarrow>
   ('r, 'e) promise \<times> ('c, 'e) event list" where
  "resolve exec router pth ctx =
     (case resolve_private exec (patterns router) pth 0 (routes router) None ctx of
        (c, evs) \<Rightarrow>
          (case async c of
             Rejected e \<Rightarrow>
               (case e of
                  RouterError s m \<Rightarrow>
                    (case handler router of
                       Some h \<Rightarrow> (async (h pth e ctx), evs @ [Handled pth e ctx])
                     | None \<Rightarrow> (Rejected e, evs))
                | _ \<Rightarrow> (Rejected e, evs))
           | p \<Rightarrow> (p, evs)))"

subsection \<open>A fragment of \<^verbatim>\<open>URLPattern\<close>\<close>

text \<open>
  The theorems on the resolver hold for every \<open>new\<close> and \<open>exec\<close>. To run the router on
  concrete inputs, the definitions of this subsection follow the URL Pattern standard on a
  fragment of its inputs:
  \<^item> a base and a candidate are absolute URL strings \<^verbatim>\<open>scheme://host/path?query\<close> that the
    URL parser leaves as they are (no dot segments, no escapes, no port, no credentials);
  \<^item> the constructor string is a pathname made of literal segments and \<^verbatim>\<open>:name\<close>
    segments, with no modifier, wildcard, group, search or hash part.
  On this fragment the standard
  \<^item> throws a \<^verbatim>\<open>TypeError\<close> when the input is \<^verbatim>\<open>undefined\<close> and a base is given;
  \<^item> takes protocol and host of the pattern from the base;
  \<^item> resolves a pathname that does not start with a slash against the path of the base:
    the base path up to and including its last slash, followed by the pathname;
  \<^item> makes the search pattern the wildcard \<^verbatim>\<open>*\<close>, whose only group is named \<^verbatim>\<open>0\<close>
    (earlier versions of the standard inherited the empty search of the base, a pattern
    with no group at all);
  \<^item> matches component by component, each component result holding the groups of its own
    pattern: a \<^verbatim>\<open>:name\<close> segment matches one non-empty segment of the candidate.
  \<open>URLPattern_new\<close> is \<open>None\<close> also on an input outside the fragment.
\<close>

record URLPattern =
  origin_pattern :: string
  pathname_pattern :: string

fun split_slash :: "string \<Rightarrow> string list" where
  "split_slash [] = [[]]"
| "split_slash (c # cs) =
     (if c = CHR ''/'' then [] # split_slash cs
      else (case split_slash cs of [] \<Rightarrow> [[c]] | s # ss \<Rightarrow> (c # s) # ss))"

definition literal_char :: "char \<Rightarrow> bool" where
  "literal_char c =
     (c \<in> set ''abcdefghijklmnopqrstuvwxyzABCDEFGHIJKLMNOPQRSTUVWXYZ0123456789-._~'')"

definition name_char :: "char \<Rightarrow> bool" where
  "name_char c =
     (c \<in> set ''abcdefghijklmnopqrstuvwxyzABCDEFGHIJKLMNOPQRSTUVWXYZ0123456789_'')"

definition pattern_segment :: "string \<Rightarrow> bool" where
  "pattern_segment sg =
     (list_all literal_char sg \<or>
      (take 1 sg = '':'' \<and> drop 1 sg \<noteq> [] \<and> list_all name_char (drop 1 sg)))"

text \<open>Origin, pathname and search of an absolute URL string.\<close>

definition parse_URL :: "string \<Rightarrow> (string \<times> string \<times> string) option" where
  "parse_URL u =
     (let scheme = takeWhile (\<lambda>c. c \<noteq> CHR '':'') u;
          rest = dropWhile (\<lambda>c. c \<noteq> CHR '':'') u;
          host = takeWhile (\<lambda>c. c \<notin> set ''/?#'') (drop 3 rest);
          tail = dropWhile (\<lambda>c. c \<notin> set ''/?#'') (drop 3 rest);
          pathn = takeWhile (\<lambda>c. c \<notin> set ''?#'') tail;
          q = dropWhile (\<lambda>c. c \<notin> set ''?#'') tail
      in if scheme \<noteq> [] \<and> take 3 rest = ''://'' \<and> host \<noteq> []
         then Some (scheme @ ''://'' @ host,
                    if pathn = [] then ''/'' else pathn,
                    if take 1 q = ''?'' then takeWhile (\<lambda>c. c \<noteq> CHR ''#'') (drop 1 q) else [])
         else None)"

definition URLPattern_new :: "string option \<Rightarrow> string \<Rightarrow> URLPattern option" where
  "URLPattern_new inp base =
     (case inp of
        None \<Rightarrow> None
      | Some s \<Rightarrow>
          (case parse_URL base of
             None \<Rightarrow> None
           | Some (orig, bpath, bsearch) \<Rightarrow>
               if list_all pattern_segment (split_slash s) \<and>
                  list_all (list_all literal_char) (split_slash bpath)
               then Some \<lparr>origin_pattern = orig,
                          pathname_pattern =
                            (if take 1 s = ''/'' then s
                             else rev (dropWhile (\<lambda>c. c \<noteq> CHR ''/'') (rev bpath)) @ s)\<rparr>
               else None))"

fun match_segments :: "string list \<Rightarrow> string list \<Rightarrow> RouteParams option" where
  "match_segments [] [] = Some []"
| "match_segments (p # ps) (s # ss) =
     (if take 1 p = '':''
      then (if s = [] then None
            else (case match_segments ps ss of
                    None \<Rightarrow> None
                  | Some gs \<Rightarrow> Some ((drop 1 p, Some s) # gs)))
      else (if p = s then match_segments ps ss else None))"
| "match_segments _ _ = None"

definition URLPattern_exec :: "URLPattern \<Rightarrow> string \<Rightarrow> URLPatternResult option" where
  "URLPattern_exec pat u =
     (case parse_URL u of
        None \<Rightarrow> None
      | Some (orig, pathn, srch) \<Rightarrow>
          if orig = origin_pattern pat
          then (case match_segments (split_slash (pathname_pattern pat)) (split_slash pathn) of
                  None \<Rightarrow> None
                | Some gs \<Rightarrow>
                    Some \<lparr>pathname = \<lparr>input = pathn, groups = gs\<rparr>,
                          search = \<lparr>input = srch, groups = [(''0'', Some srch)]\<rparr>\<rparr>)
          else None)"

subsection \<open>Constructing a router and resolving one path\<close>

text \<open>\<^verbatim>\<open>new Router(routes, options).resolve(path, context)\<close>.\<close>

definition resolve_new ::
  "(string option \<Rightarrow> string \<Rightarrow> 'p option) \<Rightarrow> ('p \<Rightarrow> string \<Rightarrow> URLPatternResult option) \<Rightarrow> string \<Rightarrow>
   ('r, 'c, 'e) Route list + ('r, 'c, 'e) Route \<Rightarrow> ('r, 'c, 'e) RouterOptions option \<Rightarrow>
   string \<Rightarrow> 'c \<Rightarrow> 'e thrown + ('r, 'e) promise \<times> ('c, 'e) event list" where
  "resolve_new new exec origin rts opts pth ctx =
     (case constructor new origin rts opts of
        Inl e \<Rightarrow> Inl e
      | Inr router \<Rightarrow> Inr (resolve exec router pth ctx))"

subsection \<open>Notions used to state the properties\<close>

text \<open>The calls of the error handler among the events.\<close>

fun handled :: "('c, 'e) event \<Rightarrow> bool" where
  "handled (Handled p e c) = True"
| "handled _ = False"

text \<open>An event that concerns route \<open>n\<close> or a route below it.\<close>

fun under :: "node \<Rightarrow> ('c, 'e) event \<Rightarrow> bool" where
  "under n (Tested m) = (take (length n) m = n)"
| "under n (Invoked m) = (take (length n) m = n)"
| "under n (Handled p e c) = False"

text \<open>
  The routes the loop of \<^verbatim>\<open>#resolve\<close> can reach from a list of siblings: the
  siblings, and the children of every route whose \<^verbatim>\<open>children\<close> are an array.
\<close>

fun nodes :: "node option \<Rightarrow> nat \<Rightarrow> ('r, 'c, 'e) Route list \<Rightarrow> node list" where
  "nodes par i [] = []"
| "nodes par i (Route ch p a # rest) =
     child_node par i #
     (case ch of None \<Rightarrow> [] | Some cs \<Rightarrow> nodes (Some (child_node par i)) 0 cs) @
     nodes par (Suc i) rest"

text \<open>The events of testing the \<open>k\<close> siblings from index \<open>i\<close> on, in order.\<close>

definition tests :: "node option \<Rightarrow> nat \<Rightarrow> nat \<Rightarrow> ('c, 'e) event list" where
  "tests par i k = map (\<lambda>j. Tested (child_node par j)) [i..<i + k]"

text \<open>
  The \<open>k\<close> siblings from index \<open>i\<close> on have a pattern in the table, and none of these
  patterns matches the path.
\<close>

definition misses ::
  "('p \<Rightarrow> string \<Rightarrow> URLPatternResult option) \<Rightarrow> (node \<rightharpoonup> 'p) \<Rightarrow> string \<Rightarrow> node option \<Rightarrow>
   nat \<Rightarrow> nat \<Rightarrow> bool" where
  "misses exec pats pth par i k =
     (\<forall>j\<in>{i..<i + k}. \<exists>pat. pats (child_node par j) = Some pat \<and> exec pat pth = None)"

text \<open>None of the root siblings of the router has a pattern that matches the path.\<close>

definition unmatched ::
  "('p \<Rightarrow> string \<Rightarrow> URLPatternResult option) \<Rightarrow> ('r, 'c, 'e, 'p) Router \<Rightarrow> string \<Rightarrow> bool" where
  "unmatched exec router pth =
     (\<forall>j<length (routes router). \<forall>pat. patterns router [j] = Some pat \<longrightarrow> exec pat pth = None)"

text \<open>
  A failure comes out of the action of a route below this list of siblings: the first
  matching sibling has an action and the call of this action completes with the failure
  (\<open>here\<close>), or it has no action and the failure comes out of an action below its
  children (\<open>below\<close>).
\<close>

inductive surfaces ::
  "('p \<Rightarrow> string \<Rightarrow> URLPatternResult option) \<Rightarrow> (node \<rightharpoonup> 'p) \<Rightarrow> string \<Rightarrow> 'c \<Rightarrow>
   node option \<Rightarrow> nat \<Rightarrow> ('r, 'c, 'e) Route list \<Rightarrow> 'e thrown \<Rightarrow> bool"
  for exec :: "'p \<Rightarrow> string \<Rightarrow> URLPatternResult option" and pats :: "node \<rightharpoonup> 'p"
    and pth :: string and ctx :: 'c where
  here:
    "misses exec pats pth par i (length pre) \<Longrightarrow>
     pats (child_node par (i + length pre)) = Some pat \<Longrightarrow>
     exec pat pth = Some result \<Longrightarrow>
     action r = Some a \<Longrightarrow>
     run (next exec pats pth r (child_node par (i + length pre)) ctx)
       (a \<lparr>context = ctx, route = child_node par (i + length pre), parent = par,
           ctx_path = pth, params = groups (search result)\<rparr>) = (c, evs) \<Longrightarrow>
     async c = Rejected e \<Longrightarrow>
     surfaces exec pats pth ctx par i (pre @ r # post) e"
| below:
    "misses exec pats pth par i (length pre) \<Longrightarrow>
     pats (child_node par (i + length pre)) = Some pat \<Longrightarrow>
     exec pat pth = Some result \<Longrightarrow>
     action r = None \<Longrightarrow>
     children r = Some cs \<Longrightarrow>
     surfaces exec pats pth ctx (Some (child_node par (i + length pre))) 0 cs e \<Longrightarrow>
     surfaces exec pats pth ctx par i (pre @ r # post) e"

subsection \<open>Sample actions, handlers and patterns\<close>

definition says :: "string \<Rightarrow> unit RouteContext \<Rightarrow> (string, unit) behaviour" where
  "says s rc = Return (Plain (Value s))"

definition returns_undefined :: "unit RouteContext \<Rightarrow> (string, unit) behaviour" where
  "returns_undefined rc = Return (Plain Undefined)"



definition returns_params :: "unit RouteContext \<Rightarrow> (RouteParams, unit) behaviour" where
  "returns_params rc = Return (Plain (Value (params rc)))"

text \<open>An action that returns the promise of \<^verbatim>\<open>next()\<close>.\<close>

definition delegates :: "unit RouteContext \<Rightarrow> (string, unit) behaviour" where
  "delegates rc = CallNext (\<lambda>p. Return (Promise p))"

definition fallback :: "(string, unit, unit) RouterErrorHandler" where
  "fallback pth e ctx = Plain (Value ''fallback'')"

text \<open>A constructor that records the arguments \<^verbatim>\<open>#patternize\<close> passes to it.\<close>

definition arguments :: "string option \<Rightarrow> string \<Rightarrow> (string option \<times> string) option" where
  "arguments inp base = Some (inp, base)"

definition at_h :: "string \<Rightarrow> URLPattern" where
  "at_h p = \<lparr>origin_pattern = ''http://h'', pathname_pattern = p\<rparr>"

text \<open>A match of a candidate without query: its pathname and the groups of the pathname.\<close>

definition match_of :: "string \<Rightarrow> RouteParams \<Rightarrow> URLPatternResult" where
  "match_of p gs =
     \<lparr>pathname = \<lparr>input = p, groups = gs\<rparr>, search = \<lparr>input = [], groups = [(''0'', Some [])]\<rparr>\<rparr>"

definition nested_router :: "(string, unit, unit, URLPattern) Router" where
  "nested_router =
     \<lparr>routes = [Route (Some [Route None ''sub'' None]) ''/base'' None],
      patterns = set_all [([0], at_h ''/base''), ([0, 0], at_h ''/sub'')] Map.empty,
      options = Some \<lparr>baseURL = ''http://h/'', errorHandler = None\<rparr>\<rparr>"

definition flat_router ::
  "(string, unit, unit) RouterErrorHandler option \<Rightarrow> (string, unit, unit, URLPattern) Router" where
  "flat_router h =
     \<lparr>routes = [Route None ''/foo'' None, Route None ''/users/:id'' None],
      patterns = set_all [([0], at_h ''/foo''), ([1], at_h ''/users/:id'')] Map.empty,
      options = Some \<lparr>baseURL = ''http://h'', errorHandler = h\<rparr>\<rparr>"


text \<open>A matcher that answers as \<^verbatim>\<open>URLPattern\<close> does, with the pathname component blanked.\<close>

definition forget_pathname :: "URLPattern \<Rightarrow> string \<Rightarrow> URLPatternResult option" where
  "forget_pathname pat u =
     map_option (\<lambda>res. res\<lparr>pathname := \<lparr>input = [], groups = []\<rparr>\<rparr>) (URLPattern_exec pat u)"

section \<open>Auxiliary facts\<close>

lemma misses_0: "misses exec pats pth par i 0"
  by (simp add: misses_def)

lemma run_events: "set (snd (run nx b)) \<subseteq> set (snd nx)"
proof (induction b)
  case (Return c)
  then show ?case by simp
next
  case (CallNext k)
  from CallNext[of "k (fst nx)"] show ?case
    by (auto split: prod.splits)
qed

lemma match_step:
  "pats (child_node par i) = Some pat \<Longrightarrow> exec pat pth = Some result \<Longrightarrow>
   resolve_private exec pats pth i (r # rest) par ctx =
     (let n = child_node par i; nx = next exec pats pth r n ctx
      in case action r of
           None \<Rightarrow> (Promise (fst nx), Tested n # snd nx)
         | Some a \<Rightarrow>
             (let res = run nx (a \<lparr>context = ctx, route = n, parent = par,
                                    ctx_path = pth, params = groups (search result)\<rparr>)
              in if nullish (fst res)
                 then (Promise (fst nx), Tested n # Invoked n # snd res @ snd nx)
                 else (fst res, Tested n # Invoked n # snd res)))"
  by (simp add: next_def Let_def split: prod.splits option.splits)

lemma miss_step:
  "pats (child_node par i) = Some pat \<Longrightarrow> exec pat pth = None \<Longrightarrow>
   resolve_private exec pats pth i (r # rest) par ctx =
     (fst (resolve_private exec pats pth (Suc i) rest par ctx),
      Tested (child_node par i) # snd (resolve_private exec pats pth (Suc i) rest par ctx))"
  by (simp split: prod.splits)

lemma tests_Suc: "tests par i (Suc k) = Tested (child_node par i) # tests par (Suc i) k"
  unfolding tests_def by (simp add: upt_conv_Cons del: upt_Suc)

lemma misses_Suc:
  "misses exec pats pth par i (Suc k) \<longleftrightarrow>
     (\<exists>pat. pats (child_node par i) = Some pat \<and> exec pat pth = None) \<and>
     misses exec pats pth par (Suc i) k"
proof -
  have "{i..<i + Suc k} = insert i {Suc i..<Suc i + k}"
    by auto
  then show ?thesis
    unfolding misses_def by simp
qed

lemma scan_misses:
  "misses exec pats pth par i (length pre) \<Longrightarrow>
   resolve_private exec pats pth i (pre @ rs) par ctx =
     (fst (resolve_private exec pats pth (i + length pre) rs par ctx),
      tests par i (length pre) @ snd (resolve_private exec pats pth (i + length pre) rs par ctx))"
proof (induction pre arbitrary: i)
  case Nil
  then show ?case by (simp add: tests_def)
next
  case (Cons r pre)
  from Cons.prems obtain pat where p: "pats (child_node par i) = Some pat" "exec pat pth = None"
    by (auto simp: misses_Suc)
  have "misses exec pats pth par (Suc i) (length pre)"
    using Cons.prems by (simp add: misses_Suc)
  from Cons.IH[OF this] have IH: "resolve_private exec pats pth (Suc i) (pre @ rs) par ctx =
     (fst (resolve_private exec pats pth (Suc i + length pre) rs par ctx),
      tests par (Suc i) (length pre) @ snd (resolve_private exec pats pth (Suc i + length pre) rs par ctx))" .
  show ?case
    using miss_step[where pats = pats and par = par and i = i and exec = exec and pth = pth,
        OF p, of r "pre @ rs" ctx] IH by (simp add: tests_Suc del: resolve_private.simps)
qed

lemma no_handled_run: "\<not> list_ex handled (snd nx) \<Longrightarrow> \<not> list_ex handled (snd (run nx b))"
  using run_events[of nx b] by (auto simp: list_ex_iff)

lemma no_handled: "\<not> list_ex handled (snd (resolve_private exec pats pth i rs par ctx))"
proof (induction exec pats pth i rs par ctx rule: resolve_private.induct)
  case (1 exec pats pth i par ctx)
  then show ?case by simp
next
  case (2 exec pats pth i r rest par ctx)
  show ?case
  proof (cases "pats (child_node par i)")
    case None
    then show ?thesis by simp
  next
    case (Some pat)
    show ?thesis
    proof (cases "exec pat pth")
      case None
      with Some 2(1) show ?thesis
        by (simp add: miss_step[where pats = pats and par = par and i = i and exec = exec
              and pth = pth and pat = pat] del: resolve_private.simps)
    next
      case (Some result)
      have nx: "\<not> list_ex handled (snd (next exec pats pth r (child_node par i) ctx))"
        using 2(2)[OF \<open>pats (child_node par i) = Some pat\<close> Some]
        by (auto simp: next_def split: option.splits prod.splits)
      show ?thesis
        using nx no_handled_run[OF nx]
        by (auto simp: match_step[where pats = pats and par = par and i = i
              and exec = exec and pth = pth and pat = pat and result = result, OF \<open>pats (child_node par i) = Some pat\<close> Some] Let_def list_ex_iff
            simp del: resolve_private.simps split: option.splits prod.splits)
    qed
  qed
qed

lemma under_child: "under (child_node (Some n) j) ev \<Longrightarrow> under n ev"
proof (cases ev)
  case (Tested m)
  assume "under (child_node (Some n) j) ev"
  with Tested have "take (Suc (length n)) m = n @ [j]" by (simp add: child_node_def)
  then have "take (length n) (take (Suc (length n)) m) = n" by simp
  then show ?thesis using Tested by (simp add: min_def)
next
  case (Invoked m)
  assume "under (child_node (Some n) j) ev"
  with Invoked have "take (Suc (length n)) m = n @ [j]" by (simp add: child_node_def)
  then have "take (length n) (take (Suc (length n)) m) = n" by simp
  then show ?thesis using Invoked by (simp add: min_def)
next
  case (Handled p e c)
  assume "under (child_node (Some n) j) ev"
  with Handled show ?thesis by simp
qed

lemma events_under:
  "ev \<in> set (snd (resolve_private exec pats pth i rs par ctx)) \<Longrightarrow>
   \<exists>j\<in>{i..<i + length rs}. under (child_node par j) ev"
proof (induction exec pats pth i rs par ctx arbitrary: ev rule: resolve_private.induct)
  case (1 exec pats pth i par ctx)
  then show ?case by simp
next
  case (2 exec pats pth i r rest par ctx)
  let ?n = "child_node par i"
  show ?case
  proof (cases "pats ?n")
    case None
    with 2(3) show ?thesis by simp
  next
    case (Some pat)
    note pat = this
    show ?thesis
    proof (cases "exec pat pth")
      case None
      from 2(3) have "ev = Tested ?n \<or> ev \<in> set (snd (resolve_private exec pats pth (Suc i) rest par ctx))"
        by (simp add: miss_step[where pats = pats and par = par and i = i and exec = exec
              and pth = pth and pat = pat, OF pat None] del: resolve_private.simps) 
      then show ?thesis
      proof
        assume "ev = Tested ?n"
        then have "under ?n ev" by simp
        then show ?thesis by (intro bexI[of _ i]) simp_all
      next
        assume "ev \<in> set (snd (resolve_private exec pats pth (Suc i) rest par ctx))"
        from 2(1)[OF pat None this]
        obtain j where "j \<in> {Suc i..<Suc i + length rest}" "under (child_node par j) ev"
          by blast
        then show ?thesis by (intro bexI[of _ j]) simp_all
      qed
    next
      case (Some result)
      let ?nx = "next exec pats pth r ?n ctx"
      have nx: "under ?n ev'" if "ev' \<in> set (snd ?nx)" for ev'
      proof (cases "children r")
        case None
        with that show ?thesis by (simp add: next_def)
      next
        case (Some cs)
        with that have "ev' \<in> set (snd (resolve_private exec pats pth 0 cs (Some ?n) ctx))"
          by (simp add: next_def split: prod.splits)
        from 2(2)[OF pat \<open>exec pat pth = Some result\<close> Some this]
        obtain j where "under (child_node (Some ?n) j) ev'" by auto
        then show ?thesis by (rule under_child)
      qed
      have "ev = Tested ?n \<or> ev = Invoked ?n \<or> ev \<in> set (snd ?nx)"
        using 2(3) run_events[of ?nx]
        by (auto simp: match_step[where pats = pats and par = par and i = i
              and exec = exec and pth = pth and pat = pat and result = result, OF pat Some] Let_def
            simp del: resolve_private.simps split: option.splits if_splits)
      then have "under ?n ev" using nx by auto
      then show ?thesis by (intro bexI[of _ i]) simp_all
    qed
  qed
qed

lemma under_sibling:
  assumes "under (child_node par j) ev" "j \<noteq> k"
  shows "ev \<noteq> Tested (child_node par k)" "ev \<noteq> Invoked (child_node par k)"
  using assms by (auto simp: child_node_def split: option.splits)

lemma dom_set_all: "dom (set_all ws m) = dom m \<union> fst ` set ws"
  unfolding set_all_def by (induction ws arbitrary: m) auto

lemma patternize_nodes:
  "patternize new par i rs parents = Inr ws \<Longrightarrow> map fst ws = nodes par i rs"
proof (induction new par i rs parents arbitrary: ws rule: patternize.induct)
  case (1 new par i parents)
  then show ?case by simp
next
  case (2 new par i r rest parents)
  obtain ch p a where r: "r = Route ch p a" by (cases r)
  from 2(3) obtain pat where pat: "new (stripJoiners (path r)) (join parents) = Some pat"
    by (auto simp: Let_def split: option.splits)
  show ?case
    using 2 pat r
    by (auto simp: Let_def split: option.splits sum.splits if_splits)
qed

lemma sibling_in_nodes: "j < length rs \<Longrightarrow> child_node par (i + j) \<in> set (nodes par i rs)"
proof (induction rs arbitrary: i j)
  case Nil
  then show ?case by simp
next
  case (Cons r rs)
  obtain ch p a where r: "r = Route ch p a" by (cases r)
  show ?case
  proof (cases j)
    case 0
    then show ?thesis by (simp add: r)
  next
    case (Suc k)
    with Cons.prems have "k < length rs" by simp
    from Cons.IH[OF this, of "Suc i"] show ?thesis by (simp add: r Suc)
  qed
qed

lemma constructor_covers:
  assumes "constructor new origin rts opts = Inr router" "n \<in> set (nodes None 0 (routes router))"
  shows "\<exists>pat. patterns router n = Some pat"
proof -
  from assms(1) obtain ws where
    ws: "patternize new None 0 (routes router)
           [stripJoiners (case opts of None \<Rightarrow> origin | Some opt \<Rightarrow> baseURL opt)] = Inr ws"
    and pats: "patterns router = set_all ws Map.empty"
    by (auto simp: constructor_def Let_def split: sum.splits)
  from patternize_nodes[OF ws] assms(2) have "n \<in> fst ` set ws" by (metis set_map)
  then have "n \<in> dom (patterns router)" by (simp add: pats dom_set_all)
  then show ?thesis by blast
qed

lemma not_found_level:
  "misses exec pats pth par i (length rs) \<Longrightarrow>
   resolve_private exec pats pth i rs par ctx =
     (Throws (RouterError 404 (''Page '' @ pth @ '' is not found'')), tests par i (length rs))"
  using scan_misses[of exec pats pth par i rs "[]" ctx] by simp

lemma reads_nodes:
  "\<forall>n\<in>set (nodes par i rs). pats' n = pats n \<Longrightarrow>
   resolve_private exec pats' pth i rs par ctx = resolve_private exec pats pth i rs par ctx"
proof (induction exec pats pth i rs par ctx rule: resolve_private.induct)
  case (1 exec pats pth i par ctx)
  then show ?case by simp
next
  case (2 exec pats pth i r rest par ctx)
  obtain ch p a where r: "r = Route ch p a" by (cases r)
  let ?n = "child_node par i"
  from 2(3) have here: "pats' ?n = pats ?n"
    and below: "\<forall>cs. ch = Some cs \<longrightarrow> (\<forall>n\<in>set (nodes (Some ?n) 0 cs). pats' n = pats n)"
    and after: "\<forall>n\<in>set (nodes par (Suc i) rest). pats' n = pats n"
    by (auto simp: r)
  show ?case
  proof (cases "pats ?n")
    case None
    with here show ?thesis by simp
  next
    case (Some pat)
    note pat = this
    with here have pat': "pats' ?n = Some pat" by simp
    show ?thesis
    proof (cases "exec pat pth")
      case None
      from 2(1)[OF pat None after] pat pat' None show ?thesis by simp
    next
      case (Some result)
      have "next exec pats' pth r ?n ctx = next exec pats pth r ?n ctx"
        using 2(2)[OF pat Some] below by (simp add: next_def r split: option.splits)
      then show ?thesis
        unfolding match_step[where pats = pats and par = par and i = i and pth = pth
            and exec = exec and pat = pat and result = result, OF pat Some]
          match_step[where pats = pats' and par = par and i = i and pth = pth
            and exec = exec and pat = pat and result = result, OF pat' Some]
        by simp
    qed
  qed
qed

lemma first_match:
  assumes "misses exec pats pth par i (length pre)"
    and "pats (child_node par (i + length pre)) = Some pat"
    and "exec pat pth = Some result"
  shows "resolve_private exec pats pth i (pre @ r # post) par ctx =
     (let n = child_node par (i + length pre); nx = next exec pats pth r n ctx
      in case action r of
           None \<Rightarrow> (Promise (fst nx), tests par i (length pre) @ Tested n # snd nx)
         | Some a \<Rightarrow>
             (let res = run nx (a \<lparr>context = ctx, route = n, parent = par,
                                    ctx_path = pth, params = groups (search result)\<rparr>)
              in if nullish (fst res)
                 then (Promise (fst nx),
                       tests par i (length pre) @ Tested n # Invoked n # snd res @ snd nx)
                 else (fst res, tests par i (length pre) @ Tested n # Invoked n # snd res)))"
  unfolding scan_misses[OF assms(1)]
    match_step[where pats = pats and par = par and i = "i + length pre" and exec = exec
      and pth = pth and pat = pat and result = result, OF assms(2,3)]
  by (simp add: Let_def split: option.splits)


lemma tests_under: "ev \<in> set (tests par i k) \<Longrightarrow> \<exists>j\<in>{i..<i + k}. ev = Tested (child_node par j)"
  unfolding tests_def by auto

lemma child_node_inject: "child_node par j = child_node par k \<longleftrightarrow> j = k"
  by (simp add: child_node_def split: option.splits)

lemma next_silent_undefined:
  "next exec pats pth r n ctx = (Fulfilled Undefined, []) \<longleftrightarrow> children r = None"
proof (cases "children r")
  case None
  then show ?thesis by (simp add: next_def)
next
  case (Some cs)
  show ?thesis
  proof (cases cs)
    case Nil
    with Some show ?thesis by (simp add: next_def)
  next
    case (Cons c cs')
    with Some show ?thesis
      by (auto simp: next_def Let_def split: option.splits prod.splits if_splits)
  qed
qed

lemma dropWhile_no_slash:
  "take (Suc 0) (dropWhile (\<lambda>c. c = CHR ''/'') xs) \<noteq> ''/''"
  by (induction xs) auto

lemma strip_front:
  assumes "take (Suc 0) ys \<noteq> ''/''"
  shows "take (Suc 0) (rev (dropWhile (\<lambda>c. c = CHR ''/'') (rev ys))) \<noteq> ''/''"
proof (cases ys)
  case Nil
  then show ?thesis by simp
next
  case (Cons y ys')
  with assms have y: "y \<noteq> CHR ''/''" by simp
  have "dropWhile (\<lambda>c. c = CHR ''/'') (rev ys' @ [y]) = dropWhile (\<lambda>c. c = CHR ''/'') (rev ys') @ [y]"
    using y by (simp add: dropWhile_append3)
  then have "rev (dropWhile (\<lambda>c. c = CHR ''/'') (rev ys)) =
      y # rev (dropWhile (\<lambda>c. c = CHR ''/'') (rev ys'))"
    using Cons by simp
  with y show ?thesis by simp
qed

section \<open>Properties of the resolver\<close>

subsection \<open>The table of patterns\<close>

text \<open>
  C10: when the constructor succeeds, every route the loop of \<^verbatim>\<open>#resolve\<close> can reach
  from the root list of siblings (the siblings, and recursively the children of any
  route) has a pattern in the table; and a resolution reads the table at these routes
  only (it is the same with any table that agrees there), so the lookup
  \<^verbatim>\<open>this.#patterns.get(route)!\<close> never yields \<^verbatim>\<open>undefined\<close>.
\<close>

theorem patterns_cover_nodes:
  assumes "constructor new origin rts opts = Inr router"
  shows "(\<forall>n\<in>set (nodes None 0 (routes router)). patterns router n \<noteq> None) \<and>
         (\<forall>pats'. (\<forall>n\<in>set (nodes None 0 (routes router)). pats' n = patterns router n) \<longrightarrow>
            resolve_private exec pats' pth 0 (routes router) None ctx =
            resolve_private exec (patterns router) pth 0 (routes router) None ctx)"
proof (intro conjI allI impI ballI)
  fix n assume "n \<in> set (nodes None 0 (routes router))"
  with constructor_covers[OF assms] show "patterns router n \<noteq> None" by auto
next
  fix pats' assume "\<forall>n\<in>set (nodes None 0 (routes router)). pats' n = patterns router n"
  then show "resolve_private exec pats' pth 0 (routes router) None ctx =
      resolve_private exec (patterns router) pth 0 (routes router) None ctx"
    by (rule reads_nodes)
qed

text \<open>The router built for a route \<^verbatim>\<open>/base\<close> with a child \<^verbatim>\<open>sub\<close>.\<close>

theorem patterns_cover_nodes_witness:
  "constructor URLPattern_new [] (Inr (Route (Some [Route None ''sub'' None]) ''/base'' None))
     (Some \<lparr>baseURL = ''http://h/'', errorHandler = None\<rparr>) = Inr nested_router \<and>
   [0, 0] \<in> set (nodes None 0 (routes nested_router)) \<and>
   patterns nested_router [0, 0] \<noteq> None"
proof -
  have ws: "patternize URLPattern_new None 0
       [Route (Some [Route None ''sub'' None]) ''/base'' None :: (string, unit, unit) Route]
       [stripJoiners ''http://h/''] =
     (Inr [([0], at_h ''/base''), ([0, 0], at_h ''/sub'')] :: unit thrown + _)"
    by code_simp
  have h1: "constructor URLPattern_new [] (Inr (Route (Some [Route None ''sub'' None]) ''/base'' None))
     (Some \<lparr>baseURL = ''http://h/'', errorHandler = None\<rparr>) = Inr nested_router"
    by (simp add: constructor_def nested_router_def ws del: patternize.simps)
  have h2: "[0, 0] \<in> set (nodes None 0 (routes nested_router))"
    by (simp add: nested_router_def child_node_def)
  from patterns_cover_nodes[where exec = URLPattern_exec and pth = "[]" and ctx = "()", OF h1]
  have "\<forall>n\<in>set (nodes None 0 (routes nested_router)). patterns nested_router n \<noteq> None" ..
  then have "patterns nested_router [0, 0] \<noteq> None" using h2 by (rule bspec)
  with h1 h2 show ?thesis by (intro conjI)
qed

subsection \<open>Not found\<close>

text \<open>
  C2: when no pattern of the tree matches the path (it is enough that none of the root
  siblings matches), the traversal throws a \<^verbatim>\<open>RouterError\<close> with status 404 whose
  message holds the path, after testing the root siblings in order, at the level where
  no sibling matched; nothing in between swallows it: \<^verbatim>\<open>resolve\<close> rejects with this
  very error when no error handler is configured, and hands this very error to the error
  handler when one is.
\<close>

theorem not_found_404:
  assumes "constructor new origin rts opts = Inr router"
    and "unmatched exec router pth"
  shows "resolve_private exec (patterns router) pth 0 (routes router) None ctx =
           (Throws (RouterError 404 (''Page '' @ pth @ '' is not found'')),
            tests None 0 (length (routes router))) \<and>
         (handler router = None \<longrightarrow>
            resolve exec router pth ctx =
              (Rejected (RouterError 404 (''Page '' @ pth @ '' is not found'')),
               tests None 0 (length (routes router)))) \<and>
         (\<forall>h. handler router = Some h \<longrightarrow>
            resolve exec router pth ctx =
              (async (h pth (RouterError 404 (''Page '' @ pth @ '' is not found'')) ctx),
               tests None 0 (length (routes router)) @
                 [Handled pth (RouterError 404 (''Page '' @ pth @ '' is not found'')) ctx]))"
proof -
  have "misses exec (patterns router) pth None 0 (length (routes router))"
    unfolding misses_def
  proof
    fix j assume "j \<in> {0..<0 + length (routes router)}"
    then have j: "j < length (routes router)" by simp
    from sibling_in_nodes[OF j, of None 0] constructor_covers[OF assms(1)]
    obtain pat where "patterns router (child_node None j) = Some pat" by auto
    moreover from this assms(2) j have "exec pat pth = None"
      by (simp add: child_node_def unmatched_def)
    ultimately show "\<exists>pat. patterns router (child_node None j) = Some pat \<and> exec pat pth = None"
      by blast
  qed
  from not_found_level[OF this] show ?thesis
    by (simp add: resolve_def)
qed

text \<open>Two routes, \<^verbatim>\<open>/foo\<close> and \<^verbatim>\<open>/users/:id\<close>, and the path \<^verbatim>\<open>/bar\<close>.\<close>

theorem not_found_404_witness:
  "constructor URLPattern_new []
     (Inl [Route None ''/foo'' None, Route None ''/users/:id'' None])
     (Some \<lparr>baseURL = ''http://h'', errorHandler = None\<rparr>) = Inr (flat_router None) \<and>
   unmatched URLPattern_exec (flat_router None) ''http://h/bar'' \<and>
   resolve URLPattern_exec (flat_router None) ''http://h/bar'' () =
     (Rejected (RouterError 404 ''Page http://h/bar is not found''), [Tested [0], Tested [1]])"
proof -
  have ws: "patternize URLPattern_new None 0
       [Route None ''/foo'' None, Route None ''/users/:id'' None :: (string, unit, unit) Route]
       [stripJoiners ''http://h''] =
     (Inr [([0], at_h ''/foo''), ([1], at_h ''/users/:id'')] :: unit thrown + _)"
    by code_simp
  have h1: "constructor URLPattern_new []
     (Inl [Route None ''/foo'' None, Route None ''/users/:id'' None])
     (Some \<lparr>baseURL = ''http://h'', errorHandler = None\<rparr>) = Inr (flat_router None)"
    by (simp add: constructor_def flat_router_def ws del: patternize.simps)
  have e0: "URLPattern_exec (at_h ''/foo'') ''http://h/bar'' = None"
    by code_simp
  have e1: "URLPattern_exec (at_h ''/users/:id'') ''http://h/bar'' = None"
    by code_simp
  have h2: "unmatched URLPattern_exec (flat_router None) ''http://h/bar''"
    by (simp add: unmatched_def flat_router_def set_all_def All_less_Suc e0 e1)
  from not_found_404[where exec = URLPattern_exec and router = "flat_router None"
      and pth = "''http://h/bar''" and ctx = "()", OF h1 h2]
  have "resolve URLPattern_exec (flat_router None) ''http://h/bar'' () =
     (Rejected (RouterError 404 ''Page http://h/bar is not found''), [Tested [0], Tested [1]])"
    by (simp add: handler_def flat_router_def tests_def child_node_def)
  with h1 h2 show ?thesis by blast
qed

subsection \<open>The error handler\<close>

text \<open>
  C3: when an error handler is configured and the traversal ends in a \<^verbatim>\<open>RouterError\<close>
  (the 404 of a path that is not found in particular), the handler is called with the
  path, the error and the context; this is its only call, made by \<^verbatim>\<open>resolve\<close> after the
  whole traversal, never inside it; and what the handler returns is the result of
  \<^verbatim>\<open>resolve\<close>: a value it returns fulfils the promise.
\<close>

theorem handler_called_once:
  assumes "handler router = Some h"
    and "resolve_private exec (patterns router) pth 0 (routes router) None ctx = (c, evs)"
    and "async c = Rejected (RouterError s m)"
  shows "resolve exec router pth ctx =
           (async (h pth (RouterError s m) ctx), evs @ [Handled pth (RouterError s m) ctx]) \<and>
         filter handled (snd (resolve exec router pth ctx)) = [Handled pth (RouterError s m) ctx] \<and>
         (\<forall>v. h pth (RouterError s m) ctx = Plain v \<longrightarrow> fst (resolve exec router pth ctx) = Fulfilled v)"
proof -
  have 1: "resolve exec router pth ctx =
           (async (h pth (RouterError s m) ctx), evs @ [Handled pth (RouterError s m) ctx])"
    using assms by (simp add: resolve_def)
  have "\<not> list_ex handled evs"
    using no_handled[of exec "patterns router" pth 0 "routes router" None ctx] assms(2) by simp
  then have "filter handled evs = []"
    by (simp add: list_ex_iff filter_empty_conv)
  with 1 show ?thesis by simp
qed

theorem handler_called_once_witness:
  "handler (flat_router (Some fallback)) = Some fallback \<and>
   resolve_private URLPattern_exec (patterns (flat_router (Some fallback))) ''http://h/bar'' 0
     (routes (flat_router (Some fallback))) None () =
     (Throws (RouterError 404 ''Page http://h/bar is not found''), [Tested [0], Tested [1]]) \<and>
   async (Throws (RouterError 404 ''Page http://h/bar is not found'') :: (string, unit) completion) =
     Rejected (RouterError 404 ''Page http://h/bar is not found'') \<and>
   resolve URLPattern_exec (flat_router (Some fallback)) ''http://h/bar'' () =
     (Fulfilled (Value ''fallback''),
      [Tested [0], Tested [1],
       Handled ''http://h/bar'' (RouterError 404 ''Page http://h/bar is not found'') ()]) \<and>
   filter handled (snd (resolve URLPattern_exec (flat_router (Some fallback)) ''http://h/bar'' ())) =
     [Handled ''http://h/bar'' (RouterError 404 ''Page http://h/bar is not found'') ()]"
proof -
  have h1: "handler (flat_router (Some fallback)) = Some fallback"
    by (simp add: handler_def flat_router_def)
  have h2: "resolve_private URLPattern_exec (patterns (flat_router (Some fallback))) ''http://h/bar'' 0
     (routes (flat_router (Some fallback))) None () =
     (Throws (RouterError 404 ''Page http://h/bar is not found''), [Tested [0], Tested [1]])"
    by code_simp
  have h3: "async (Throws (RouterError 404 ''Page http://h/bar is not found'') :: (string, unit) completion) =
     Rejected (RouterError 404 ''Page http://h/bar is not found'')"
    by simp
  from handler_called_once[OF h1 h2 h3] h1 h2 h3 show ?thesis
    by (simp add: fallback_def)
qed

subsection \<open>The first match wins\<close>

text \<open>
  C5: the siblings are scanned in the order of their declaration. When the siblings
  before \<open>r\<close> do not match and \<open>r\<close> matches, the resolution of the level is made of
  the action of \<open>r\<close> and of \<^verbatim>\<open>next()\<close> on the children of \<open>r\<close>, as
  \<^verbatim>\<open>route.action?.(...) ?? next()\<close> combines them, whatever siblings follow \<open>r\<close>: no
  pattern of a later sibling is run and no action of a later sibling is called, also when
  a later sibling would match.
\<close>

theorem first_match_wins:
  assumes "misses exec pats pth par i (length pre)"
    and "pats (child_node par (i + length pre)) = Some pat"
    and "exec pat pth = Some result"
  shows "resolve_private exec pats pth i (pre @ r # post) par ctx =
           (let n = child_node par (i + length pre); nx = next exec pats pth r n ctx
            in case action r of
                 None \<Rightarrow> (Promise (fst nx), tests par i (length pre) @ Tested n # snd nx)
               | Some a \<Rightarrow>
                   (let res = run nx (a \<lparr>context = ctx, route = n, parent = par,
                                          ctx_path = pth, params = groups (search result)\<rparr>)
                    in if nullish (fst res)
                       then (Promise (fst nx),
                             tests par i (length pre) @ Tested n # Invoked n # snd res @ snd nx)
                       else (fst res, tests par i (length pre) @ Tested n # Invoked n # snd res))) \<and>
         (\<forall>k>i + length pre.
            Tested (child_node par k) \<notin> set (snd (resolve_private exec pats pth i (pre @ r # post) par ctx)) \<and>
            Invoked (child_node par k) \<notin> set (snd (resolve_private exec pats pth i (pre @ r # post) par ctx)))"
proof -
  let ?one = "resolve_private exec pats pth (i + length pre) [r] par ctx"
  have "resolve_private exec pats pth (i + length pre) (r # post) par ctx = ?one"
    unfolding match_step[where pats = pats and par = par and i = "i + length pre" and exec = exec
      and pth = pth and pat = pat and result = result, OF assms(2,3)] ..
  with scan_misses[OF assms(1), of "r # post" ctx]
  have eq: "resolve_private exec pats pth i (pre @ r # post) par ctx =
      (fst ?one, tests par i (length pre) @ snd ?one)"
    by simp
  have "ev \<noteq> Tested (child_node par k) \<and> ev \<noteq> Invoked (child_node par k)"
    if k: "i + length pre < k" and ev: "ev \<in> set (tests par i (length pre) @ snd ?one)" for k ev
  proof (cases "ev \<in> set (tests par i (length pre))")
    case True
    from tests_under[OF this] k show ?thesis by (auto simp: child_node_inject)
  next
    case False
    with ev have "ev \<in> set (snd ?one)" by simp
    from events_under[OF this] have "under (child_node par (i + length pre)) ev" by simp
    from under_sibling[OF this, of k] k show ?thesis by simp
  qed
  then have later: "\<forall>k>i + length pre.
      Tested (child_node par k) \<notin> set (snd (resolve_private exec pats pth i (pre @ r # post) par ctx)) \<and>
      Invoked (child_node par k) \<notin> set (snd (resolve_private exec pats pth i (pre @ r # post) par ctx))"
    unfolding eq by auto
  from first_match[OF assms, of r post ctx] later show ?thesis by (rule conjI)
qed

text \<open>
  Siblings \<^verbatim>\<open>a\<close>, \<^verbatim>\<open>:x\<close> and \<^verbatim>\<open>foo\<close>: the path \<^verbatim>\<open>/foo\<close> matches the second and the
  third. The action of the second is called, it returns the promise of \<^verbatim>\<open>next()\<close>, and
  the child of the second answers.
\<close>

theorem first_match_wins_witness:
  "misses URLPattern_exec
     [[0] \<mapsto> at_h ''/a'', [1] \<mapsto> at_h ''/:x'', [1, 0] \<mapsto> at_h ''/foo'', [2] \<mapsto> at_h ''/foo'']
     ''http://h/foo'' None 0 (length [Route None ''a'' None :: (string, unit, unit) Route]) \<and>
   [[0] \<mapsto> at_h ''/a'', [1] \<mapsto> at_h ''/:x'', [1, 0] \<mapsto> at_h ''/foo'', [2] \<mapsto> at_h ''/foo'']
     (child_node None (0 + length [Route None ''a'' None :: (string, unit, unit) Route])) =
     Some (at_h ''/:x'') \<and>
   URLPattern_exec (at_h ''/:x'') ''http://h/foo'' = Some (match_of ''/foo'' [(''x'', Some ''foo'')]) \<and>
   URLPattern_exec (at_h ''/foo'') ''http://h/foo'' = Some (match_of ''/foo'' []) \<and>
   resolve_private URLPattern_exec
     [[0] \<mapsto> at_h ''/a'', [1] \<mapsto> at_h ''/:x'', [1, 0] \<mapsto> at_h ''/foo'', [2] \<mapsto> at_h ''/foo'']
     ''http://h/foo'' 0
     ([Route None ''a'' None] @
      Route (Some [Route None ''foo'' (Some (says ''child of first''))]) '':x'' (Some delegates) #
      [Route None ''foo'' (Some (says ''second''))]) None () =
     (Promise (Fulfilled (Value ''child of first'')),
      [Tested [0], Tested [1], Invoked [1], Tested [1, 0], Invoked [1, 0]])"
proof -
  let ?tbl = "[[0] \<mapsto> at_h ''/a'', [1] \<mapsto> at_h ''/:x'', [1, 0] \<mapsto> at_h ''/foo'',
               [2] \<mapsto> at_h ''/foo'']"
  let ?pre = "[Route None ''a'' None :: (string, unit, unit) Route]"
  let ?r = "Route (Some [Route None ''foo'' (Some (says ''child of first''))]) '':x'' (Some delegates)"
  have e0: "URLPattern_exec (at_h ''/a'') ''http://h/foo'' = None"
    by code_simp
  have h1: "misses URLPattern_exec ?tbl ''http://h/foo'' None 0 (length ?pre)"
    by (simp add: misses_Suc misses_0 child_node_def e0)
  have h2: "?tbl (child_node None (0 + length ?pre)) = Some (at_h ''/:x'')"
    by (simp add: child_node_def)
  have h3: "URLPattern_exec (at_h ''/:x'') ''http://h/foo'' = Some (match_of ''/foo'' [(''x'', Some ''foo'')])"
    by code_simp
  have h4: "URLPattern_exec (at_h ''/foo'') ''http://h/foo'' = Some (match_of ''/foo'' [])"
    by code_simp
  note first = first_match_wins[where exec = URLPattern_exec and pats = ?tbl and pre = ?pre,
      OF h1 h2 h3, of ?r "[Route None ''foo'' (Some (says ''second''))]" "()", THEN conjunct1]
  have "resolve_private URLPattern_exec ?tbl ''http://h/foo'' 0
     (?pre @ ?r # [Route None ''foo'' (Some (says ''second''))]) None () =
     (Promise (Fulfilled (Value ''child of first'')),
      [Tested [0], Tested [1], Invoked [1], Tested [1, 0], Invoked [1, 0]])"
    by (rule trans[OF first]) code_simp
  with h1 h2 h3 h4 show ?thesis by blast
qed

subsection \<open>A matched route without action\<close>

text \<open>
  C8, as the code has it: when the first matching route has no action and its
  \<^verbatim>\<open>children\<close> are absent or \<^verbatim>\<open>null\<close>, the resolution at its level is a promise
  fulfilled with \<^verbatim>\<open>undefined\<close>, and at the root \<^verbatim>\<open>resolve\<close> fulfils with
  \<^verbatim>\<open>undefined\<close>: no \<^verbatim>\<open>RouterError\<close> is raised, no error handler is called. When its
  \<^verbatim>\<open>children\<close> are an empty array, the resolution is rejected with the 404
  \<^verbatim>\<open>RouterError\<close>.
\<close>

theorem leaf_resolves_undefined:
  assumes "misses exec pats pth par i (length pre)"
    and "pats (child_node par (i + length pre)) = Some pat"
    and "exec pat pth = Some result"
    and "action r = None"
    and "children r = None \<or> children r = Some []"
  shows "resolve_private exec pats pth i (pre @ r # post) par ctx =
           (Promise (if children r = None then Fulfilled Undefined
                     else Rejected (RouterError 404 (''Page '' @ pth @ '' is not found''))),
            tests par i (length pre) @ [Tested (child_node par (i + length pre))]) \<and>
         (par = None \<and> i = 0 \<and> children r = None \<longrightarrow>
            resolve exec \<lparr>routes = pre @ r # post, patterns = pats, options = opts\<rparr> pth ctx =
              (Fulfilled Undefined, tests None 0 (length pre) @ [Tested [length pre]]))"
  using first_match[OF assms(1-3), of r post ctx] assms(4,5)
  by (auto simp: next_def resolve_def Let_def child_node_def)

theorem leaf_resolves_undefined_witness:
  "misses URLPattern_exec [[0] \<mapsto> at_h ''/a'', [1] \<mapsto> at_h ''/foo''] ''http://h/foo'' None 0
     (length [Route None ''a'' None :: (string, unit, unit) Route]) \<and>
   [[0] \<mapsto> at_h ''/a'', [1] \<mapsto> at_h ''/foo'']
     (child_node None (0 + length [Route None ''a'' None :: (string, unit, unit) Route])) =
     Some (at_h ''/foo'') \<and>
   URLPattern_exec (at_h ''/foo'') ''http://h/foo'' = Some (match_of ''/foo'' []) \<and>
   action (Route None ''foo'' None :: (string, unit, unit) Route) = None \<and>
   (children (Route None ''foo'' None :: (string, unit, unit) Route) = None \<or>
    children (Route None ''foo'' None :: (string, unit, unit) Route) = Some []) \<and>
   resolve URLPattern_exec
     \<lparr>routes = [Route None ''a'' None] @ Route None ''foo'' None # [],
      patterns = [[0] \<mapsto> at_h ''/a'', [1] \<mapsto> at_h ''/foo''],
      options = Some \<lparr>baseURL = ''http://h'', errorHandler = Some fallback\<rparr>\<rparr> ''http://h/foo'' () =
     (Fulfilled Undefined, [Tested [0], Tested [1]])"
proof -
  let ?tbl = "[[0] \<mapsto> at_h ''/a'', [1] \<mapsto> at_h ''/foo'']"
  let ?pre = "[Route None ''a'' None :: (string, unit, unit) Route]"
  have e0: "URLPattern_exec (at_h ''/a'') ''http://h/foo'' = None"
    by code_simp
  have h1: "misses URLPattern_exec ?tbl ''http://h/foo'' None 0 (length ?pre)"
    by (simp add: misses_Suc misses_0 child_node_def e0)
  have h2: "?tbl (child_node None (0 + length ?pre)) = Some (at_h ''/foo'')"
    by (simp add: child_node_def)
  have h3: "URLPattern_exec (at_h ''/foo'') ''http://h/foo'' = Some (match_of ''/foo'' [])"
    by code_simp
  have h4: "action (Route None ''foo'' None :: (string, unit, unit) Route) = None"
    by simp
  have h5: "children (Route None ''foo'' None :: (string, unit, unit) Route) = None \<or>
    children (Route None ''foo'' None :: (string, unit, unit) Route) = Some []"
    by simp
  from leaf_resolves_undefined[where exec = URLPattern_exec and pats = ?tbl and pre = ?pre,
      OF h1 h2 h3 h4 h5, of "[]" "()" "Some \<lparr>baseURL = ''http://h'', errorHandler = Some fallback\<rparr>"]
  have "resolve URLPattern_exec
     \<lparr>routes = ?pre @ Route None ''foo'' None # [], patterns = ?tbl,
      options = Some \<lparr>baseURL = ''http://h'', errorHandler = Some fallback\<rparr>\<rparr> ''http://h/foo'' () =
     (Fulfilled Undefined, [Tested [0], Tested [1]])"
    by (simp add: tests_def child_node_def)
  with h1 h2 h3 h4 h5 show ?thesis by blast
qed

text \<open>
  C8, as it is stated, fails: the route \<^verbatim>\<open>/foo\<close> has no action and an empty array of
  children, so it has neither action nor children; it matches, and \<^verbatim>\<open>resolve\<close> is
  rejected with the 404 \<^verbatim>\<open>RouterError\<close>.
\<close>

theorem empty_children_leaf_counterexample:
  "action (Route (Some []) ''/foo'' None :: (string, unit, unit) Route) = None \<and>
   children (Route (Some []) ''/foo'' None :: (string, unit, unit) Route) = Some [] \<and>
   URLPattern_exec (at_h ''/foo'') ''http://h/foo'' = Some (match_of ''/foo'' []) \<and>
   resolve_new URLPattern_new URLPattern_exec []
     (Inr (Route (Some []) ''/foo'' None :: (string, unit, unit) Route))
     (Some \<lparr>baseURL = ''http://h'', errorHandler = None\<rparr>) ''http://h/foo'' () =
   Inr (Rejected (RouterError 404 ''Page http://h/foo is not found''), [Tested [0]])"
proof -
  have "URLPattern_exec (at_h ''/foo'') ''http://h/foo'' = Some (match_of ''/foo'' [])"
    by code_simp
  moreover have "resolve_new URLPattern_new URLPattern_exec []
     (Inr (Route (Some []) ''/foo'' None :: (string, unit, unit) Route))
     (Some \<lparr>baseURL = ''http://h'', errorHandler = None\<rparr>) ''http://h/foo'' () =
   Inr (Rejected (RouterError 404 ''Page http://h/foo is not found''), [Tested [0]])"
    by code_simp
  ultimately show ?thesis by simp
qed

text \<open>
  C9: when the first matching route has no action and its \<^verbatim>\<open>children\<close> are an empty
  array, \<^verbatim>\<open>next()\<close> resolves against the empty list of siblings and the resolution
  throws the 404 \<^verbatim>\<open>RouterError\<close>; \<^verbatim>\<open>next()\<close> yields \<^verbatim>\<open>undefined\<close> without testing
  any route exactly when \<^verbatim>\<open>children\<close> is absent or \<^verbatim>\<open>null\<close>.
\<close>

theorem empty_children_not_found:
  assumes "misses exec pats pth par i (length pre)"
    and "pats (child_node par (i + length pre)) = Some pat"
    and "exec pat pth = Some result"
    and "action r = None"
  shows "(children r = Some [] \<longrightarrow>
            resolve_private exec pats pth i (pre @ r # post) par ctx =
              (Promise (Rejected (RouterError 404 (''Page '' @ pth @ '' is not found''))),
               tests par i (length pre) @ [Tested (child_node par (i + length pre))]) \<and>
            (par = None \<and> i = 0 \<longrightarrow>
               resolve exec \<lparr>routes = pre @ r # post, patterns = pats, options = None\<rparr> pth ctx =
                 (Rejected (RouterError 404 (''Page '' @ pth @ '' is not found'')),
                  tests None 0 (length pre) @ [Tested [length pre]]))) \<and>
         (next exec pats pth r (child_node par (i + length pre)) ctx = (Fulfilled Undefined, []) \<longleftrightarrow>
            children r = None)"
  using first_match[OF assms(1-3), of r post ctx] assms(4)
    next_silent_undefined[of exec pats pth r "child_node par (i + length pre)" ctx]
  by (auto simp: next_def resolve_def handler_def Let_def child_node_def)

theorem empty_children_not_found_witness:
  "misses URLPattern_exec [[0] \<mapsto> at_h ''/a'', [1] \<mapsto> at_h ''/foo''] ''http://h/foo'' None 0
     (length [Route None ''a'' None :: (string, unit, unit) Route]) \<and>
   [[0] \<mapsto> at_h ''/a'', [1] \<mapsto> at_h ''/foo'']
     (child_node None (0 + length [Route None ''a'' None :: (string, unit, unit) Route])) =
     Some (at_h ''/foo'') \<and>
   URLPattern_exec (at_h ''/foo'') ''http://h/foo'' = Some (match_of ''/foo'' []) \<and>
   action (Route (Some []) ''foo'' None :: (string, unit, unit) Route) = None \<and>
   resolve URLPattern_exec
     \<lparr>routes = [Route None ''a'' None] @
                (Route (Some []) ''foo'' None :: (string, unit, unit) Route) # [],
      patterns = [[0] \<mapsto> at_h ''/a'', [1] \<mapsto> at_h ''/foo''],
      options = None\<rparr> ''http://h/foo'' () =
     (Rejected (RouterError 404 ''Page http://h/foo is not found''), [Tested [0], Tested [1]])"
proof -
  let ?tbl = "[[0] \<mapsto> at_h ''/a'', [1] \<mapsto> at_h ''/foo'']"
  let ?pre = "[Route None ''a'' None :: (string, unit, unit) Route]"
  have e0: "URLPattern_exec (at_h ''/a'') ''http://h/foo'' = None"
    by code_simp
  have h1: "misses URLPattern_exec ?tbl ''http://h/foo'' None 0 (length ?pre)"
    by (simp add: misses_Suc misses_0 child_node_def e0)
  have h2: "?tbl (child_node None (0 + length ?pre)) = Some (at_h ''/foo'')"
    by (simp add: child_node_def)
  have h3: "URLPattern_exec (at_h ''/foo'') ''http://h/foo'' = Some (match_of ''/foo'' [])"
    by code_simp
  have h4: "action (Route (Some []) ''foo'' None :: (string, unit, unit) Route) = None"
    by simp
  from empty_children_not_found[where exec = URLPattern_exec and pats = ?tbl and pre = ?pre,
      OF h1 h2 h3 h4, of "[]" "()"]
  have "resolve URLPattern_exec
     \<lparr>routes = ?pre @ Route (Some []) ''foo'' None # [], patterns = ?tbl,
      options = None\<rparr> ''http://h/foo'' () =
     (Rejected (RouterError 404 ''Page http://h/foo is not found''), [Tested [0], Tested [1]])"
    by (simp add: tests_def child_node_def)
  with h1 h2 h3 h4 show ?thesis by blast
qed

subsection \<open>A matched route with an action\<close>

text \<open>
  C1, as the code has it: when the first matching route has an action, the action is
  called, and
  \<^item> when the call completes with anything but a plain \<^verbatim>\<open>null\<close> or \<^verbatim>\<open>undefined\<close> (a
    value, any promise, a throw), this is how the resolution of the level completes, and
    the only events after the call are those of the action's own calls of \<^verbatim>\<open>next()\<close>:
    none when it calls \<^verbatim>\<open>next()\<close> never, so no child is tested; at the root,
    \<^verbatim>\<open>resolve\<close> then settles as the promise of that completion does, unless it is
    rejected with a \<^verbatim>\<open>RouterError\<close>;
  \<^item> when the call returns a plain \<^verbatim>\<open>null\<close> or \<^verbatim>\<open>undefined\<close>, the resolver calls
    \<^verbatim>\<open>next()\<close> itself (the operator \<^verbatim>\<open>??\<close>) and the result is that of \<^verbatim>\<open>next()\<close>.
\<close>

theorem action_decides:
  assumes "misses exec pats pth par i (length pre)"
    and "pats (child_node par (i + length pre)) = Some pat"
    and "exec pat pth = Some result"
    and "action r = Some a"
    and "run (next exec pats pth r (child_node par (i + length pre)) ctx)
           (a \<lparr>context = ctx, route = child_node par (i + length pre), parent = par,
               ctx_path = pth, params = groups (search result)\<rparr>) = (c, evs)"
  shows "(\<not> nullish c \<longrightarrow>
            resolve_private exec pats pth i (pre @ r # post) par ctx =
              (c, tests par i (length pre) @
                  Tested (child_node par (i + length pre)) #
                  Invoked (child_node par (i + length pre)) # evs)) \<and>
         (nullish c \<longrightarrow>
            resolve_private exec pats pth i (pre @ r # post) par ctx =
              (Promise (fst (next exec pats pth r (child_node par (i + length pre)) ctx)),
               tests par i (length pre) @
                 Tested (child_node par (i + length pre)) #
                 Invoked (child_node par (i + length pre)) # evs @
                 snd (next exec pats pth r (child_node par (i + length pre)) ctx))) \<and>
         (\<forall>c'. a \<lparr>context = ctx, route = child_node par (i + length pre), parent = par,
                   ctx_path = pth, params = groups (search result)\<rparr> = Return c' \<longrightarrow>
               c = c' \<and> evs = []) \<and>
         (par = None \<and> i = 0 \<and> \<not> nullish c \<and> (\<forall>s m. async c \<noteq> Rejected (RouterError s m)) \<longrightarrow>
            resolve exec \<lparr>routes = pre @ r # post, patterns = pats, options = opts\<rparr> pth ctx =
              (async c, tests None 0 (length pre) @
                  Tested [length pre] # Invoked [length pre] # evs))"
proof -
  let ?n = "child_node par (i + length pre)"
  have priv: "resolve_private exec pats pth i (pre @ r # post) par ctx =
     (if nullish c
      then (Promise (fst (next exec pats pth r ?n ctx)),
            tests par i (length pre) @ Tested ?n # Invoked ?n # evs @ snd (next exec pats pth r ?n ctx))
      else (c, tests par i (length pre) @ Tested ?n # Invoked ?n # evs))"
    using first_match[OF assms(1-3), of r post ctx] assms(4,5) by (simp add: Let_def)
  have ret: "c = c' \<and> evs = []"
    if "a \<lparr>context = ctx, route = ?n, parent = par, ctx_path = pth,
            params = groups (search result)\<rparr> = Return c'" for c'
    using assms(5) that by simp
  have top: "resolve exec \<lparr>routes = pre @ r # post, patterns = pats, options = opts\<rparr> pth ctx =
              (async c, tests None 0 (length pre) @ Tested [length pre] # Invoked [length pre] # evs)"
    if "par = None" "i = 0" "\<not> nullish c" "\<forall>s m. async c \<noteq> Rejected (RouterError s m)"
  proof (cases "async c")
    case (Rejected e)
    with that(4) have "\<forall>s m. e \<noteq> RouterError s m" by simp
    then show ?thesis
      using priv that(1-3) Rejected by (cases e) (simp_all add: resolve_def child_node_def)
  qed (use priv that(1-3) in \<open>simp_all add: resolve_def child_node_def\<close>)
  from priv ret top show ?thesis by simp
qed

theorem action_decides_witness:
  "misses URLPattern_exec [[0] \<mapsto> at_h ''/a'', [1] \<mapsto> at_h ''/foo'', [1, 0] \<mapsto> at_h ''/b'']
     ''http://h/foo'' None 0 (length [Route None ''a'' None :: (string, unit, unit) Route]) \<and>
   [[0] \<mapsto> at_h ''/a'', [1] \<mapsto> at_h ''/foo'', [1, 0] \<mapsto> at_h ''/b'']
     (child_node None (0 + length [Route None ''a'' None :: (string, unit, unit) Route])) =
     Some (at_h ''/foo'') \<and>
   URLPattern_exec (at_h ''/foo'') ''http://h/foo'' = Some (match_of ''/foo'' []) \<and>
   action (Route (Some [Route None ''b'' None]) ''foo'' (Some (says ''hello''))) = Some (says ''hello'') \<and>
   resolve URLPattern_exec
     \<lparr>routes = [Route None ''a'' None] @
                Route (Some [Route None ''b'' None]) ''foo'' (Some (says ''hello'')) # [],
      patterns = [[0] \<mapsto> at_h ''/a'', [1] \<mapsto> at_h ''/foo'', [1, 0] \<mapsto> at_h ''/b''],
      options = None\<rparr> ''http://h/foo'' () =
     (Fulfilled (Value ''hello''), [Tested [0], Tested [1], Invoked [1]])"
proof -
  let ?tbl = "[[0] \<mapsto> at_h ''/a'', [1] \<mapsto> at_h ''/foo'', [1, 0] \<mapsto> at_h ''/b'']"
  let ?pre = "[Route None ''a'' None :: (string, unit, unit) Route]"
  let ?r = "Route (Some [Route None ''b'' None]) ''foo'' (Some (says ''hello''))"
  have e0: "URLPattern_exec (at_h ''/a'') ''http://h/foo'' = None"
    by code_simp
  have h1: "misses URLPattern_exec ?tbl ''http://h/foo'' None 0 (length ?pre)"
    by (simp add: misses_Suc misses_0 child_node_def e0)
  have h2: "?tbl (child_node None (0 + length ?pre)) = Some (at_h ''/foo'')"
    by (simp add: child_node_def)
  have h3: "URLPattern_exec (at_h ''/foo'') ''http://h/foo'' = Some (match_of ''/foo'' [])"
    by code_simp
  have h4: "action ?r = Some (says ''hello'')"
    by simp
  have h5: "run (next URLPattern_exec ?tbl ''http://h/foo'' ?r (child_node None (0 + length ?pre)) ())
      (says ''hello'' \<lparr>context = (), route = child_node None (0 + length ?pre), parent = None,
         ctx_path = ''http://h/foo'', params = groups (search (match_of ''/foo'' []))\<rparr>) =
      (Plain (Value ''hello''), [])"
    by (simp add: says_def)
  from action_decides[where exec = URLPattern_exec and pats = ?tbl and pre = ?pre,
      OF h1 h2 h3 h4 h5, of "[]" None]
  have "resolve URLPattern_exec \<lparr>routes = ?pre @ ?r # [], patterns = ?tbl, options = None\<rparr>
      ''http://h/foo'' () =
     (Fulfilled (Value ''hello''), [Tested [0], Tested [1], Invoked [1]])"
    by (simp add: tests_def child_node_def)
  with h1 h2 h3 h4 show ?thesis by blast
qed

text \<open>
  C1, as it is stated, fails: the action of \<^verbatim>\<open>/a\<close> returns \<^verbatim>\<open>undefined\<close> and never
  calls \<^verbatim>\<open>next()\<close>, yet the child \<^verbatim>\<open>b\<close> is tested and \<^verbatim>\<open>resolve\<close> is rejected with
  the 404 of the children instead of being fulfilled with \<^verbatim>\<open>undefined\<close>.
\<close>

theorem nullish_action_delegates_counterexample:
  "returns_undefined \<lparr>context = (), route = [0], parent = None, ctx_path = ''http://h/a'',
     params = [(''0'', Some [])]\<rparr> = Return (Plain Undefined) \<and>
   resolve_new URLPattern_new URLPattern_exec []
     (Inr (Route (Some [Route None ''b'' None]) ''/a'' (Some returns_undefined)))
     (Some \<lparr>baseURL = ''http://h'', errorHandler = None\<rparr>) ''http://h/a'' () =
   Inr (Rejected (RouterError 404 ''Page http://h/a is not found''),
        [Tested [0], Invoked [0], Tested [0, 0]])"
proof -
  have "resolve_new URLPattern_new URLPattern_exec []
     (Inr (Route (Some [Route None ''b'' None]) ''/a'' (Some returns_undefined)))
     (Some \<lparr>baseURL = ''http://h'', errorHandler = None\<rparr>) ''http://h/a'' () =
   Inr (Rejected (RouterError 404 ''Page http://h/a is not found''),
        [Tested [0], Invoked [0], Tested [0, 0]])"
    by code_simp
  then show ?thesis by (simp add: returns_undefined_def)
qed

subsection \<open>Failures of actions\<close>




subsection \<open>Parameters\<close>

text \<open>
  C4: the route \<^verbatim>\<open>/users/:id\<close> and the path \<^verbatim>\<open>/users/42\<close>. The pattern matches and
  the groups of its pathname are \<^verbatim>\<open>{ id: "42" }\<close>, but the action receives the groups of
  the search component as \<^verbatim>\<open>params\<close>: the key \<^verbatim>\<open>id\<close> is missing from them.
\<close>

theorem params_are_search_groups:
  "URLPattern_new (stripJoiners ''/users/:id'') ''http://h'' = Some (at_h ''/users/:id'') \<and>
   URLPattern_exec (at_h ''/users/:id'') ''http://h/users/42'' =
     Some (match_of ''/users/42'' [(''id'', Some ''42'')]) \<and>
   resolve_new URLPattern_new URLPattern_exec []
     (Inr (Route None ''/users/:id'' (Some returns_params)))
     (Some \<lparr>baseURL = ''http://h'', errorHandler = None\<rparr>) ''http://h/users/42'' () =
   Inr (Fulfilled (Value [(''0'', Some [])]), [Tested [0], Invoked [0]])"
  by code_simp

text \<open>
  Whatever matcher is used, the resolver reads nothing of a match but its search
  component: two matchers that agree on the search component of every match give the
  same resolution, so the groups of the pathname reach no action.
\<close>

theorem only_search_is_read:
  assumes "\<forall>pat. map_option search (exec pat pth) = map_option search (exec' pat pth)"
  shows "resolve_private exec pats pth i rs par ctx = resolve_private exec' pats pth i rs par ctx"
  using assms
proof (induction exec pats pth i rs par ctx rule: resolve_private.induct)
  case (1 exec pats pth i par ctx)
  then show ?case by simp
next
  case (2 exec pats pth i r rest par ctx)
  show ?case
  proof (cases "pats (child_node par i)")
    case None
    then show ?thesis by simp
  next
    case (Some pat)
    note pat = this
    show ?thesis
    proof (cases "exec pat pth")
      case None
      with 2(3) have "exec' pat pth = None" by (metis option.map_disc_iff)
      with None pat 2(1)[OF pat None 2(3)] show ?thesis by simp
    next
      case (Some result)
      with 2(3) obtain result' where r': "exec' pat pth = Some result'" and sr: "search result' = search result"
        by (metis map_option_eq_Some option.simps(9))
      have "next exec pats pth r (child_node par i) ctx = next exec' pats pth r (child_node par i) ctx"
        using 2(2)[OF pat Some _ 2(3)] by (simp add: next_def split: option.splits)
      then show ?thesis
        unfolding match_step[where pats = pats and par = par and i = i and pth = pth
            and exec = exec and pat = pat and result = result, OF pat Some]
          match_step[where pats = pats and par = par and i = i and pth = pth
            and exec = exec' and pat = pat and result = result', OF pat r'] sr
        by simp
    qed
  qed
qed

theorem only_search_is_read_witness:
  "(\<forall>pat. map_option search (URLPattern_exec pat ''http://h/users/42'') =
          map_option search (forget_pathname pat ''http://h/users/42'')) \<and>
   resolve_private URLPattern_exec [[0] \<mapsto> at_h ''/users/:id''] ''http://h/users/42'' 0
     [Route None ''/users/:id'' (Some returns_params)] None () =
   resolve_private forget_pathname [[0] \<mapsto> at_h ''/users/:id''] ''http://h/users/42'' 0
     [Route None ''/users/:id'' (Some returns_params)] None () \<and>
   resolve_private forget_pathname [[0] \<mapsto> at_h ''/users/:id''] ''http://h/users/42'' 0
     [Route None ''/users/:id'' (Some returns_params)] None () =
     (Plain (Value [(''0'', Some [])]), [Tested [0], Invoked [0]])"
proof -
  have h: "\<forall>pat. map_option search (URLPattern_exec pat ''http://h/users/42'') =
      map_option search (forget_pathname pat ''http://h/users/42'')"
    by (simp add: forget_pathname_def option.map_comp comp_def)
  have e: "resolve_private forget_pathname [[0] \<mapsto> at_h ''/users/:id''] ''http://h/users/42'' 0
     [Route None ''/users/:id'' (Some returns_params)] None () =
     (Plain (Value [(''0'', Some [])]), [Tested [0], Invoked [0]])"
    by code_simp
  from only_search_is_read[where exec = URLPattern_exec and exec' = forget_pathname, OF h,
      of "[[0] \<mapsto> at_h ''/users/:id'']" 0 "[Route None ''/users/:id'' (Some returns_params)]" None "()"]
    h e
  show ?thesis by (simp del: resolve_private.simps)
qed

subsection \<open>Patterns of nested routes\<close>

text \<open>
  C6: the stripped ancestors are joined by single slashes into the base of a child's
  pattern, but this base ends in no slash, and the pathname of the pattern is the path of
  the base up to its last slash, followed by the child's path: the segment of the parent
  is dropped. For the route \<^verbatim>\<open>/base\<close> with the child \<^verbatim>\<open>base\<close> and the base
  \<^verbatim>\<open>http://h\<close>, the pattern of the child is constructed from \<^verbatim>\<open>base\<close> and
  \<^verbatim>\<open>http://h/base\<close>; its pathname is \<^verbatim>\<open>/base\<close>, so resolving the bare
  \<^verbatim>\<open>/base\<close> runs the action of the child, and \<^verbatim>\<open>/base/base\<close> is not found. In the
  same way the pattern of a child \<^verbatim>\<open>sub\<close> has the pathname \<^verbatim>\<open>/sub\<close>: it matches
  the bare \<^verbatim>\<open>/sub\<close> and does not match \<^verbatim>\<open>/base/sub\<close>.
\<close>

theorem child_pattern_drops_parent_segment:
  "patternize arguments None 0
     [Route (Some [Route None ''base'' (Some (says ''child''))]) ''/base'' None]
     [stripJoiners ''http://h''] =
     (Inr [([0], (Some ''base'', ''http://h'')), ([0, 0], (Some ''base'', ''http://h/base''))]
        :: unit thrown + _) \<and>
   URLPattern_new (Some ''base'') ''http://h/base'' = Some (at_h ''/base'') \<and>
   resolve_new URLPattern_new URLPattern_exec []
     (Inr (Route (Some [Route None ''base'' (Some (says ''child''))]) ''/base'' None))
     (Some \<lparr>baseURL = ''http://h'', errorHandler = None\<rparr>) ''http://h/base'' () =
     Inr (Fulfilled (Value ''child''), [Tested [0], Tested [0, 0], Invoked [0, 0]]) \<and>
   resolve_new URLPattern_new URLPattern_exec []
     (Inr (Route (Some [Route None ''base'' (Some (says ''child''))]) ''/base'' None))
     (Some \<lparr>baseURL = ''http://h'', errorHandler = None\<rparr>) ''http://h/base/base'' () =
     Inr (Rejected (RouterError 404 ''Page http://h/base/base is not found''), [Tested [0]]) \<and>
   URLPattern_new (Some ''sub'') ''http://h/base'' = Some (at_h ''/sub'') \<and>
   URLPattern_exec (at_h ''/sub'') ''http://h/sub'' = Some (match_of ''/sub'' []) \<and>
   URLPattern_exec (at_h ''/sub'') ''http://h/base/sub'' = None"
  by code_simp

section \<open>Further properties\<close>

text \<open>
  No backtracking: when the first matching route has no action and none of its children
  matches, the 404 of the children is the result of the level; the siblings after the
  matched route are not tried.
\<close>

theorem nested_not_found_propagates:
  assumes "misses exec pats pth par i (length pre)"
    and "pats (child_node par (i + length pre)) = Some pat"
    and "exec pat pth = Some result"
    and "action r = None"
    and "children r = Some cs"
    and "misses exec pats pth (Some (child_node par (i + length pre))) 0 (length cs)"
  shows "resolve_private exec pats pth i (pre @ r # post) par ctx =
           (Promise (Rejected (RouterError 404 (''Page '' @ pth @ '' is not found''))),
            tests par i (length pre) @ Tested (child_node par (i + length pre)) #
              tests (Some (child_node par (i + length pre))) 0 (length cs))"
  using first_match[OF assms(1-3), of r post ctx] assms(4,5)
    not_found_level[OF assms(6), of ctx]
  by (simp add: next_def Let_def)

theorem nested_not_found_propagates_witness:
  "misses URLPattern_exec
     [[0] \<mapsto> at_h ''/a'', [1] \<mapsto> at_h ''/base'', [1, 0] \<mapsto> at_h ''/sub'', [2] \<mapsto> at_h ''/:any'']
     ''http://h/base'' None 0 (length [Route None ''a'' None :: (string, unit, unit) Route]) \<and>
   URLPattern_exec (at_h ''/base'') ''http://h/base'' = Some (match_of ''/base'' []) \<and>
   URLPattern_exec (at_h ''/:any'') ''http://h/base'' = Some (match_of ''/base'' [(''any'', Some ''base'')]) \<and>
   misses URLPattern_exec
     [[0] \<mapsto> at_h ''/a'', [1] \<mapsto> at_h ''/base'', [1, 0] \<mapsto> at_h ''/sub'', [2] \<mapsto> at_h ''/:any'']
     ''http://h/base'' (Some [1]) 0 (length [Route None ''sub'' None :: (string, unit, unit) Route]) \<and>
   resolve_private URLPattern_exec
     [[0] \<mapsto> at_h ''/a'', [1] \<mapsto> at_h ''/base'', [1, 0] \<mapsto> at_h ''/sub'', [2] \<mapsto> at_h ''/:any'']
     ''http://h/base'' 0
     ([Route None ''a'' None] @ Route (Some [Route None ''sub'' None]) ''/base'' None #
      [Route None '':any'' (Some (says ''late''))]) None () =
     (Promise (Rejected (RouterError 404 ''Page http://h/base is not found'')),
      [Tested [0], Tested [1], Tested [1, 0]])"
proof -
  let ?tbl = "[[0] \<mapsto> at_h ''/a'', [1] \<mapsto> at_h ''/base'', [1, 0] \<mapsto> at_h ''/sub'',
               [2] \<mapsto> at_h ''/:any'']"
  let ?pre = "[Route None ''a'' None :: (string, unit, unit) Route]"
  let ?cs = "[Route None ''sub'' None :: (string, unit, unit) Route]"
  have e0: "URLPattern_exec (at_h ''/a'') ''http://h/base'' = None"
    by code_simp
  have e1: "URLPattern_exec (at_h ''/sub'') ''http://h/base'' = None"
    by code_simp
  have h1: "misses URLPattern_exec ?tbl ''http://h/base'' None 0 (length ?pre)"
    by (simp add: misses_Suc misses_0 child_node_def e0)
  have h2: "?tbl (child_node None (0 + length ?pre)) = Some (at_h ''/base'')"
    by (simp add: child_node_def)
  have h3: "URLPattern_exec (at_h ''/base'') ''http://h/base'' = Some (match_of ''/base'' [])"
    by code_simp
  have h4: "action (Route (Some ?cs) ''/base'' None) = None"
    by simp
  have h5: "children (Route (Some ?cs) ''/base'' None) = Some ?cs"
    by simp
  have h6: "misses URLPattern_exec ?tbl ''http://h/base'' (Some (child_node None (0 + length ?pre))) 0
      (length ?cs)"
    by (simp add: misses_Suc misses_0 child_node_def e1)
  have h7: "URLPattern_exec (at_h ''/:any'') ''http://h/base'' =
      Some (match_of ''/base'' [(''any'', Some ''base'')])"
    by code_simp
  from nested_not_found_propagates[where exec = URLPattern_exec and pats = ?tbl and pre = ?pre,
      OF h1 h2 h3 h4 h5 h6, of "[Route None '':any'' (Some (says ''late''))]" "()"]
  have "resolve_private URLPattern_exec ?tbl ''http://h/base'' 0
     (?pre @ Route (Some ?cs) ''/base'' None # [Route None '':any'' (Some (says ''late''))]) None () =
     (Promise (Rejected (RouterError 404 ''Page http://h/base is not found'')),
      [Tested [0], Tested [1], Tested [1, 0]])"
    by (simp add: tests_def child_node_def)
  moreover have "misses URLPattern_exec ?tbl ''http://h/base'' (Some [1]) 0 (length ?cs)"
    using h6 by (simp add: child_node_def)
  ultimately show ?thesis using h1 h3 h7 by blast
qed

text \<open>
  At whatever depth a failure arises: when the traversal ends in a rejection that is no
  \<^verbatim>\<open>RouterError\<close>, \<^verbatim>\<open>resolve\<close> is rejected with the same value and adds no event,
  whatever the options are.
\<close>

lemma rejection_passes:
  assumes "resolve_private exec (patterns router) pth 0 (routes router) None ctx = (c, evs)"
    and "async c = Rejected e"
    and "\<forall>s m. e \<noteq> RouterError s m"
  shows "resolve exec router pth ctx = (Rejected e, evs)"
  using assms by (cases e) (simp_all add: resolve_def)

text \<open>
  \<^verbatim>\<open>stripJoiners\<close>, where it returns a string: the string neither starts nor ends with
  a slash, and stripping it again changes nothing; so \<^verbatim>\<open>/foo/\<close>, \<^verbatim>\<open>/foo\<close> and
  \<^verbatim>\<open>foo\<close> are stripped to the same segment, and a run of slashes to the empty one.
\<close>

theorem stripJoiners_normal:
  assumes "stripJoiners p = Some s"
  shows "take 1 s \<noteq> ''/'' \<and> take 1 (rev s) \<noteq> ''/'' \<and> stripJoiners s = Some s"
proof -
  let ?sl = "\<lambda>c. c = CHR ''/''"
  from assms have nl: "\<not> list_ex line_terminator p"
    and s: "s = rev (dropWhile ?sl (rev (dropWhile ?sl p)))"
    by (auto simp: stripJoiners_def split: if_splits)
  have rear: "take (Suc 0) (rev s) \<noteq> ''/''"
    unfolding s using dropWhile_no_slash[of "rev (dropWhile ?sl p)"] by simp
  have front: "take (Suc 0) s \<noteq> ''/''"
    unfolding s by (rule strip_front[OF dropWhile_no_slash])
  have "x \<in> set p" if "x \<in> set s" for x
  proof -
    from that have "x \<in> set (dropWhile ?sl (rev (dropWhile ?sl p)))"
      unfolding s by simp
    then have "x \<in> set (rev (dropWhile ?sl p))" by (rule set_dropWhileD)
    then have "x \<in> set (dropWhile ?sl p)" by simp
    then show ?thesis by (rule set_dropWhileD)
  qed
  then have "set s \<subseteq> set p" by blast
  with nl have nl': "\<not> list_ex line_terminator s"
    by (auto simp: list_ex_iff)
  have d1: "dropWhile ?sl s = s"
    using front by (cases s) auto
  have d2: "dropWhile ?sl (rev s) = rev s"
    using rear by (cases "rev s") auto
  show ?thesis
    using front rear nl' by (simp add: stripJoiners_def d1 d2)
qed

theorem stripJoiners_normal_witness:
  "stripJoiners ''/foo/'' = Some ''foo'' \<and> stripJoiners ''/foo'' = Some ''foo'' \<and>
   stripJoiners ''foo'' = Some ''foo'' \<and> stripJoiners ''///'' = Some [] \<and>
   stripJoiners [] = Some [] \<and> stripJoiners ''//a//b//'' = Some ''a//b'' \<and>
   take 1 ''foo'' \<noteq> ''/'' \<and> take 1 (rev ''foo'') \<noteq> ''/''"
proof -
  have h: "stripJoiners ''/foo/'' = Some ''foo''"
    by code_simp
  have "stripJoiners ''/foo'' = Some ''foo''" "stripJoiners ''///'' = Some []"
    "stripJoiners [] = Some []" "stripJoiners ''//a//b//'' = Some ''a//b''"
    by code_simp+
  with stripJoiners_normal[OF h] h show ?thesis by simp
qed

end
